theory Spec2Isabelle
  imports Complex_Main
begin

section \<open>Binary64 arithmetic\<close>

text \<open>
  Python's \<^verbatim>\<open>float\<close> is IEEE 754 binary64: 53 significant bits, every operation rounded to
  the nearest representable number, ties to the even significand. The values met in this
  program are not negative, and for inputs of fewer than \<open>2^1000\<close> characters or entries they
  stay far inside the exponent range, so a float is a pair \<open>(m, e)\<close> that stands for
  \<open>m * 2^e\<close>, and the exponent is not bounded.
\<close>

text \<open>\<^verbatim>\<open>int.bit_length()\<close>\<close>

fun bit_length :: "nat \<Rightarrow> nat" where
  "bit_length n = (if n = 0 then 0 else Suc (bit_length (n div 2)))"

declare bit_length.simps [simp del]

text \<open>The integer nearest to \<open>a / b\<close>, the even one of the two when \<open>a / b\<close> is half way.\<close>

definition rne :: "nat \<Rightarrow> nat \<Rightarrow> nat" where
  "rne a b =
     (let q = a div b; r = a mod b
      in if b < 2 * r \<or> (2 * r = b \<and> odd q) then q + 1 else q)"

text \<open>
  For positive \<open>a\<close> and \<open>b\<close>, the integer \<open>k\<close> with \<open>2^k \<le> a / b < 2^(k+1)\<close>: the difference of the
  bit lengths, or one less.
\<close>

definition ilog2 :: "nat \<Rightarrow> nat \<Rightarrow> int" where
  "ilog2 a b =
     (let d = int (bit_length a) - int (bit_length b)
      in if b * 2 ^ nat d \<le> a * 2 ^ nat (- d) then d else d - 1)"

type_synonym binary64 = "nat \<times> int"

definition float_value :: "binary64 \<Rightarrow> real" where
  "float_value x = (case x of (m, e) \<Rightarrow> real m * 2 powi e)"

text \<open>
  The fraction \<open>a / b\<close> rounded to binary64: scaled by a power of two so that it lies between
  \<open>2^52\<close> and \<open>2^53\<close>, then rounded to an integer.
\<close>

definition round_binary64 :: "nat \<Rightarrow> nat \<Rightarrow> binary64" where
  "round_binary64 a b =
     (if a = 0 then (0, 0)
      else (let e = ilog2 a b - 52
            in (rne (a * 2 ^ nat (- e)) (b * 2 ^ nat e), e)))"

text \<open>
  \<^verbatim>\<open>a / b\<close> for two integers (CPython rounds the exact quotient once), and \<^verbatim>\<open>x * k\<close>
  for a float \<open>x\<close> and an integer \<open>k\<close> below \<open>2^53\<close>, which converts to a float without error.
  The program divides in one place only, behind the test for the empty history, so
  \<open>true_divide\<close> is only ever given a positive divisor.
\<close>

definition true_divide :: "nat \<Rightarrow> nat \<Rightarrow> binary64" where
  "true_divide a b = round_binary64 a b"

definition float_mul_int :: "binary64 \<Rightarrow> nat \<Rightarrow> binary64" where
  "float_mul_int x k =
     (case x of (m, e) \<Rightarrow> round_binary64 (m * k * 2 ^ nat e) (2 ^ nat (- e)))"

section \<open>Query tracker (tracker.py)\<close>

text \<open>
  The tracker keeps \<^verbatim>\<open>st.session_state.query_history\<close>, a Python list of dictionaries with
  the keys \<^verbatim>\<open>timestamp\<close>, \<^verbatim>\<open>query\<close>, \<^verbatim>\<open>success\<close> and \<^verbatim>\<open>error\<close>. The list is the
  state; every method takes it and, where it mutates, returns the new list. The timestamp
  \<^verbatim>\<open>datetime.now().isoformat()\<close> is an input of \<open>log_query\<close>.
\<close>

record entry =
  entry_timestamp :: string
  entry_query :: string
  entry_success :: bool
  entry_error :: "string option"

type_synonym query_history = "entry list"

text \<open>\<^verbatim>\<open>__init__\<close>: the history is created empty when the session has none.\<close>

definition init_history :: "query_history option \<Rightarrow> query_history" where
  "init_history st = (case st of None \<Rightarrow> [] | Some h \<Rightarrow> h)"

definition log_query :: "string \<Rightarrow> string \<Rightarrow> bool \<Rightarrow> string option \<Rightarrow> query_history \<Rightarrow> query_history" where
  "log_query now q ok error_msg h =
     h @ [\<lparr>entry_timestamp = now, entry_query = q, entry_success = ok, entry_error = error_msg\<rparr>]"

text \<open>
  \<^verbatim>\<open>sum(1 for q in history if q['success'])\<close> and \<^verbatim>\<open>(successful / total) * 100\<close>.
  The quotient of the two integers and its product with 100 are binary64 operations, each
  rounded as above; the function returns the real number that the resulting float denotes.
\<close>

definition successful :: "query_history \<Rightarrow> nat" where
  "successful h = sum_list (map (\<lambda>q. 1) (filter entry_success h))"

definition get_success_rate :: "query_history \<Rightarrow> real" where
  "get_success_rate h =
     (if h = [] then 0.0
      else float_value (float_mul_int (true_divide (successful h) (length h)) 100))"

definition get_total_queries :: "query_history \<Rightarrow> nat" where
  "get_total_queries h = length h"

text \<open>
  The Python slice \<^verbatim>\<open>xs[k:]\<close> for an integer \<open>k\<close>: a negative start counts from the end
  and is clamped at 0, a start beyond the end gives the empty list.
\<close>

definition slice_from :: "'a list \<Rightarrow> int \<Rightarrow> 'a list" where
  "slice_from xs k =
     (if k < 0 then drop (nat (max 0 (int (length xs) + k))) xs
      else drop (nat k) xs)"

text \<open>\<^verbatim>\<open>return st.session_state.query_history[-n:]\<close>\<close>

definition get_recent_queries :: "query_history \<Rightarrow> int \<Rightarrow> query_history" where
  "get_recent_queries h n = slice_from h (- n)"

definition clear_history :: "query_history \<Rightarrow> query_history" where
  "clear_history h = []"

definition get_failure_queries :: "query_history \<Rightarrow> query_history" where
  "get_failure_queries h = filter (\<lambda>q. \<not> entry_success q) h"

text \<open>A session is a sequence of \<open>log_query\<close> and \<open>clear_history\<close> calls on a fresh tracker.\<close>

datatype tracker_op = Log string string bool "string option" | Clear

fun run_op :: "query_history \<Rightarrow> tracker_op \<Rightarrow> query_history" where
  "run_op h (Log now q ok err) = log_query now q ok err h"
| "run_op h Clear = clear_history h"

definition run_ops :: "tracker_op list \<Rightarrow> query_history" where
  "run_ops ops = foldl run_op (init_history None) ops"

section \<open>Table validation (utils.py)\<close>

text \<open>
  A pandas DataFrame is rectangular: a list of column labels, a number of rows (the length of
  the index) and a cell for every row and column position. A cell is \<open>None\<close> when pandas
  counts it as null (\<^verbatim>\<open>None\<close>, \<^verbatim>\<open>NaN\<close>, \<^verbatim>\<open>NaT\<close>). Only positions inside the table are ever
  read.
\<close>

record 'a dataframe =
  df_columns :: "string list"
  df_nrows :: nat
  df_cell :: "nat \<Rightarrow> nat \<Rightarrow> 'a option"

text \<open>\<^verbatim>\<open>df.empty\<close>: true when any axis has length 0.\<close>

definition df_empty :: "'a dataframe \<Rightarrow> bool" where
  "df_empty df = (df_nrows df = 0 \<or> length (df_columns df) = 0)"

text \<open>
  \<^verbatim>\<open>df.isnull().all().all()\<close>: the first \<^verbatim>\<open>all\<close> reduces every column over its rows,
  the second reduces the resulting series over the columns.
\<close>

definition isnull_all_all :: "'a dataframe \<Rightarrow> bool" where
  "isnull_all_all df =
     list_all (\<lambda>j. list_all (\<lambda>i. Option.is_none (df_cell df i j)) [0..<df_nrows df])
       [0..<length (df_columns df)]"

definition validate_dataframe :: "'a dataframe option \<Rightarrow> bool \<times> string" where
  "validate_dataframe d =
     (case d of
        None \<Rightarrow> (False, ''Dataframe is None'')
      | Some df \<Rightarrow>
          if df_empty df then (False, ''Dataframe is empty'')
          else if length (df_columns df) = 0 then (False, ''No columns found'')
          else if isnull_all_all df then (False, ''All values are null'')
          else (True, ''''))"

section \<open>Python strings and regular expressions (agent.py)\<close>

text \<open>
  A Python \<^verbatim>\<open>str\<close> is a sequence of code points; \<open>string\<close> is a list of \<open>char\<close>, and a
  \<open>char\<close> stands for the code point of the same number (0 to 255, the Latin-1 range). The
  character classes below are the ones CPython uses for these code points:
  \<^verbatim>\<open>str.isspace\<close> (used by \<^verbatim>\<open>strip\<close>, \<^verbatim>\<open>split\<close> and the pattern \<^verbatim>\<open>\s\<close>), the word
  characters of \<^verbatim>\<open>\w\<close>, the decimal digits of \<^verbatim>\<open>\d\<close>, and \<^verbatim>\<open>str.lower\<close>.
\<close>

text \<open>The exceptions the code can raise, each with its message \<^verbatim>\<open>str(e)\<close>.\<close>

datatype py_error = IndexError string | ValueError string | AttributeError string

definition isspace :: "char \<Rightarrow> bool" where
  "isspace c =
     (let n = (of_char c :: nat)
      in (9 \<le> n \<and> n \<le> 13) \<or> (28 \<le> n \<and> n \<le> 32) \<or> n = 133 \<or> n = 160)"

definition isdigit :: "char \<Rightarrow> bool" where
  "isdigit c = (let n = (of_char c :: nat) in 48 \<le> n \<and> n \<le> 57)"

definition isword :: "char \<Rightarrow> bool" where
  "isword c =
     (let n = (of_char c :: nat)
      in (48 \<le> n \<and> n \<le> 57) \<or> (65 \<le> n \<and> n \<le> 90) \<or> n = 95 \<or> (97 \<le> n \<and> n \<le> 122) \<or>
         n = 170 \<or> n = 178 \<or> n = 179 \<or> n = 181 \<or> n = 185 \<or> n = 186 \<or>
         (188 \<le> n \<and> n \<le> 190) \<or> (192 \<le> n \<and> n \<le> 214) \<or> (216 \<le> n \<and> n \<le> 246) \<or>
         248 \<le> n)"

definition notnewline :: "char \<Rightarrow> bool" where
  "notnewline c = ((of_char c :: nat) \<noteq> 10)"

definition lower_char :: "char \<Rightarrow> char" where
  "lower_char c =
     (let n = (of_char c :: nat)
      in if (65 \<le> n \<and> n \<le> 90) \<or> (192 \<le> n \<and> n \<le> 222 \<and> n \<noteq> 215) then char_of (n + 32)
         else c)"

definition lower :: "string \<Rightarrow> string" where
  "lower s = map lower_char s"

definition strip :: "string \<Rightarrow> string" where
  "strip s = rev (dropWhile isspace (rev (dropWhile isspace s)))"

definition startswith :: "string \<Rightarrow> string \<Rightarrow> bool" where
  "startswith s p = (take (length p) s = p)"

text \<open>\<^verbatim>\<open>sub in s\<close>\<close>

fun contains :: "string \<Rightarrow> string \<Rightarrow> bool" where
  "contains sub [] = (sub = [])"
| "contains sub (c # cs) = (startswith (c # cs) sub \<or> contains sub cs)"

text \<open>
  \<^verbatim>\<open>s.replace(old, new)\<close>: every occurrence of \<open>old\<close>, found from left to right without
  overlap. (For an empty \<open>old\<close> Python puts \<open>new\<close> before every character and at the end.)
\<close>

fun replace :: "string \<Rightarrow> string \<Rightarrow> string \<Rightarrow> string" where
  "replace old new [] = (if old = [] then new else [])"
| "replace old new (c # cs) =
     (if old = [] then new @ c # replace old new cs
      else if startswith (c # cs) old then new @ replace old new (drop (length old - 1) cs)
      else c # replace old new cs)"

text \<open>\<^verbatim>\<open>s.split()\<close>: the maximal runs of characters that are not whitespace.\<close>

function split :: "string \<Rightarrow> string list" where
  "split s =
     (let t = dropWhile isspace s
      in if t = [] then []
         else takeWhile (\<lambda>c. \<not> isspace c) t # split (dropWhile (\<lambda>c. \<not> isspace c) t))"
  by pat_completeness auto
termination
proof (relation "measure length")
  show "wf (measure length)" by simp
next
  fix s t :: string
  assume t: "t = dropWhile isspace s" and ne: "t \<noteq> []"
  have "\<not> isspace (hd t)"
    using t ne hd_dropWhile [of isspace s] by simp
  then have "dropWhile (\<lambda>c. \<not> isspace c) t = dropWhile (\<lambda>c. \<not> isspace c) (tl t)"
    using ne by (cases t) simp_all
  moreover have "length (dropWhile (\<lambda>c. \<not> isspace c) (tl t)) \<le> length (tl t)"
    by (rule length_dropWhile_le)
  ultimately have "length (dropWhile (\<lambda>c. \<not> isspace c) t) \<le> length (tl t)"
    by simp
  also have "\<dots> < length t" using ne by (cases t) simp_all
  also have "\<dots> \<le> length s" using t by (simp add: length_dropWhile_le)
  finally show "(dropWhile (\<lambda>c. \<not> isspace c) t, s) \<in> measure length" by simp
qed

text \<open>\<^verbatim>\<open>xs[i]\<close> for a non-negative index: out of range raises \<^verbatim>\<open>IndexError\<close>.\<close>

definition index :: "'a list \<Rightarrow> nat \<Rightarrow> py_error + 'a" where
  "index xs i =
     (if i < length xs then Inr (xs ! i) else Inl (IndexError ''list index out of range''))"

text \<open>\<^verbatim>\<open>sep.join(xs)\<close>\<close>

fun join :: "string \<Rightarrow> string list \<Rightarrow> string" where
  "join sep [] = []"
| "join sep [x] = x"
| "join sep (x # y # ys) = x @ sep @ join sep (y # ys)"

subsection \<open>Backtracking matchers\<close>

text \<open>
  \<^verbatim>\<open>re.match\<close> tries a pattern at the start of the string and backtracks through the
  alternatives in a fixed order: a greedy repetition tries its longest run first, an optional
  part is tried before it is skipped, an alternation tries its branches from left to right. A
  matcher maps a state (the groups captured so far, the text still to be read) to the list of
  all states in which it can stop, in exactly that order; the match Python reports is the
  first one. The leading \<^verbatim>\<open>^\<close> of every pattern of the source is the start of the string,
  where \<^verbatim>\<open>re.match\<close> begins anyway.
\<close>

type_synonym mstate = "string list \<times> string"
type_synonym matcher = "mstate \<Rightarrow> mstate list"

text \<open>A literal text.\<close>

definition lit :: "string \<Rightarrow> matcher" where
  "lit p = (\<lambda>(gs, s). if startswith s p then [(gs, drop (length p) s)] else [])"

text \<open>\<^verbatim>\<open>c+\<close> for a character class \<open>c\<close>: one or more, greedy.\<close>

definition many1 :: "(char \<Rightarrow> bool) \<Rightarrow> matcher" where
  "many1 P = (\<lambda>(gs, s). map (\<lambda>n. (gs, drop n s)) (rev [1..<Suc (length (takeWhile P s))]))"

text \<open>\<^verbatim>\<open>a|b|c\<close>\<close>

definition alt :: "matcher list \<Rightarrow> matcher" where
  "alt ms = (\<lambda>st. concat (map (\<lambda>m. m st) ms))"

text \<open>\<^verbatim>\<open>(?:a)?\<close>\<close>

definition opt :: "matcher \<Rightarrow> matcher" where
  "opt m = (\<lambda>st. m st @ [st])"

text \<open>Concatenation of the parts of a pattern.\<close>

fun seqs :: "matcher list \<Rightarrow> matcher" where
  "seqs [] = (\<lambda>st. [st])"
| "seqs (m # ms) = (\<lambda>st. concat (map (seqs ms) (m st)))"

text \<open>
  A capturing group \<^verbatim>\<open>(a)\<close>: the text it consumed becomes the next group. (The source has
  no nested groups and no group inside an optional part or an alternation.)
\<close>

definition group :: "matcher \<Rightarrow> matcher" where
  "group m =
     (\<lambda>(gs, s). map (\<lambda>(gs', r). (gs' @ [take (length s - length r) s], r)) (m (gs, s)))"

text \<open>
  \<^verbatim>\<open>re.match(pattern, s)\<close>: \<open>None\<close>, or the groups of the first match and the text after
  its end.
\<close>

definition re_match :: "matcher \<Rightarrow> string \<Rightarrow> (string list \<times> string) option" where
  "re_match m s = (case m ([], s) of [] \<Rightarrow> None | r # _ \<Rightarrow> Some r)"

text \<open>
  \<^verbatim>\<open>item, group = match.groups()\<close> raises \<^verbatim>\<open>ValueError\<close> unless there are exactly two
  groups; \<^verbatim>\<open>match.group(1)\<close> raises \<^verbatim>\<open>IndexError\<close> when there is no first group.
\<close>

definition unpack2 :: "string list \<Rightarrow> py_error + (string \<times> string)" where
  "unpack2 gs =
     (case gs of
        [] \<Rightarrow> Inl (ValueError ''not enough values to unpack (expected 2, got 0)'')
      | [a] \<Rightarrow> Inl (ValueError ''not enough values to unpack (expected 2, got 1)'')
      | [a, b] \<Rightarrow> Inr (a, b)
      | _ \<Rightarrow> Inl (ValueError ''too many values to unpack (expected 2)''))"

definition group1 :: "string list \<Rightarrow> py_error + string" where
  "group1 gs = (case gs of [] \<Rightarrow> Inl (IndexError ''no such group'') | g # _ \<Rightarrow> Inr g)"

text \<open>
  \<^verbatim>\<open>re.sub(pattern, r'before \1 after', s, flags=re.IGNORECASE)\<close> for a pattern that
  begins with \<^verbatim>\<open>^\<close>: the only possible match is the one at the start of \<open>s\<close>, and it is
  replaced by the template, \<^verbatim>\<open>\1\<close> standing for the first group. The source calls it on the
  lower-cased text only, where ignoring case changes nothing for these code points.
\<close>

definition re_sub :: "matcher \<Rightarrow> string \<times> string \<Rightarrow> string \<Rightarrow> py_error + string" where
  "re_sub m template s =
     (case re_match m s of
        None \<Rightarrow> Inr s
      | Some (gs, rest) \<Rightarrow>
          (case group1 gs of
             Inl e \<Rightarrow> Inl e
           | Inr g \<Rightarrow> Inr (fst template @ g @ snd template @ rest)))"

section \<open>The normalizer: \<open>normalize_query\<close> (agent.py)\<close>

subsection \<open>The patterns\<close>

text \<open>\<^verbatim>\<open>^how many (\w+) in each (\w+)\<close>\<close>

definition how_many_grouped :: matcher where
  "how_many_grouped =
     seqs [lit ''how many '', group (many1 isword), lit '' in each '', group (many1 isword)]"

text \<open>\<^verbatim>\<open>^how much is the (total|average|sum|mean) (\w+)\<close>\<close>

definition how_much_pattern :: matcher where
  "how_much_pattern =
     seqs [lit ''how much is the '',
           group (alt [lit ''total'', lit ''average'', lit ''sum'', lit ''mean'']),
           lit '' '', group (many1 isword)]"

text \<open>
  \<^verbatim>\<open>^what is the (average|sum|total|mean|median|max|min|maximum|minimum) (?:of )?(\w+)\<close>
\<close>

definition what_calc_pattern :: matcher where
  "what_calc_pattern =
     seqs [lit ''what is the '',
           group (alt [lit ''average'', lit ''sum'', lit ''total'', lit ''mean'', lit ''median'',
                       lit ''max'', lit ''min'', lit ''maximum'', lit ''minimum'']),
           lit '' '', opt (lit ''of ''), group (many1 isword)]"

text \<open>\<^verbatim>\<open>^what are the (\w+)\<close>\<close>

definition what_are_pattern :: matcher where
  "what_are_pattern = seqs [lit ''what are the '', group (many1 isword)]"

text \<open>\<^verbatim>\<open>^where (?:is|are) (\w+)\<close>\<close>

definition where_pattern :: matcher where
  "where_pattern =
     seqs [lit ''where '', alt [lit ''is'', lit ''are''], lit '' '', group (many1 isword)]"

text \<open>\<^verbatim>\<open>^can you (show|give|get|find|display) (?:me )?(.+)\<close>\<close>

definition can_you_pattern :: matcher where
  "can_you_pattern =
     seqs [lit ''can you '',
           group (alt [lit ''show'', lit ''give'', lit ''get'', lit ''find'', lit ''display'']),
           lit '' '', opt (lit ''me ''), group (many1 notnewline)]"

text \<open>\<^verbatim>\<open>^i want to (see|know|find|get) (.+)\<close>\<close>

definition i_want_pattern :: matcher where
  "i_want_pattern =
     seqs [lit ''i want to '',
           group (alt [lit ''see'', lit ''know'', lit ''find'', lit ''get'']),
           lit '' '', group (many1 notnewline)]"

text \<open>
  \<^verbatim>\<open>^(?:which|who|what)\s+(?:has|have)\s+(?:the\s+)?WORD\s+(\w+)\<close>, for \<open>WORD\<close> one of
  \<^verbatim>\<open>highest\<close>, \<^verbatim>\<open>lowest\<close>, \<^verbatim>\<open>max\<close>, \<^verbatim>\<open>min\<close>.
\<close>

definition which_has :: "string \<Rightarrow> matcher" where
  "which_has word =
     seqs [alt [lit ''which'', lit ''who'', lit ''what''], many1 isspace,
           alt [lit ''has'', lit ''have''], many1 isspace,
           opt (seqs [lit ''the'', many1 isspace]),
           lit word, many1 isspace, group (many1 isword)]"

definition patterns_max_min :: "(matcher \<times> (string \<times> string)) list" where
  "patterns_max_min =
     [(which_has ''highest'', (''show the row where '', '' is maximum'')),
      (which_has ''lowest'', (''show the row where '', '' is minimum'')),
      (which_has ''max'', (''show the row where '', '' is maximum'')),
      (which_has ''min'', (''show the row where '', '' is minimum''))]"

text \<open>\<^verbatim>\<open>^top\s+(\d+)\s+(?:by\s+)?(\w+)\<close>\<close>

definition top_pattern :: matcher where
  "top_pattern =
     seqs [lit ''top'', many1 isspace, group (many1 isdigit), many1 isspace,
           opt (seqs [lit ''by'', many1 isspace]), group (many1 isword)]"

text \<open>\<^verbatim>\<open>^sort\s+(?:the\s+)?top\s+(\d+)\s+(?:by|rows by)\s+(\w+)\<close>\<close>

definition sort_top_pattern :: matcher where
  "sort_top_pattern =
     seqs [lit ''sort'', many1 isspace, opt (seqs [lit ''the'', many1 isspace]),
           lit ''top'', many1 isspace, group (many1 isdigit), many1 isspace,
           alt [lit ''by'', lit ''rows by''], many1 isspace, group (many1 isword)]"

text \<open>\<^verbatim>\<open>^(\w+)\s+(?:department|employees|workers)\<close>\<close>

definition dept_pattern :: matcher where
  "dept_pattern =
     seqs [group (many1 isword), many1 isspace,
           alt [lit ''department'', lit ''employees'', lit ''workers'']]"

subsection \<open>The rules\<close>

text \<open>
  Each block of the function reads \<open>question_lower\<close>, the lower-cased input, and may assign
  \<open>question\<close>. A rule takes \<open>question_lower\<close> and the current \<open>question\<close> and returns the
  new \<open>question\<close>, or the exception the block raises.
\<close>

type_synonym rule = "string \<Rightarrow> string \<Rightarrow> py_error + string"

text \<open>Pattern 0 and its \<^verbatim>\<open>elif\<close>, Pattern 0b.\<close>

definition pattern_0 :: rule where
  "pattern_0 question_lower question =
     (case re_match how_many_grouped question_lower of
        Some (gs, _) \<Rightarrow>
          (case unpack2 gs of
             Inl e \<Rightarrow> Inl e
           | Inr (item, grp) \<Rightarrow> Inr (''count '' @ item @ '' in each '' @ grp))
      | None \<Rightarrow>
          if startswith question_lower ''how many ''
          then (let item = strip (replace ''how many '' '''' question_lower)
                in Inr (''count total number of '' @ item))
          else Inr question)"

definition pattern_0c :: rule where
  "pattern_0c question_lower question =
     (case re_match how_much_pattern question_lower of
        Some (gs, _) \<Rightarrow>
          (case unpack2 gs of
             Inl e \<Rightarrow> Inl e
           | Inr (operation, column) \<Rightarrow> Inr (''calculate the '' @ operation @ '' of '' @ column))
      | None \<Rightarrow> Inr question)"

definition pattern_0d :: rule where
  "pattern_0d question_lower question =
     (case re_match what_calc_pattern question_lower of
        Some (gs, _) \<Rightarrow>
          (case unpack2 gs of
             Inl e \<Rightarrow> Inl e
           | Inr (operation, column) \<Rightarrow>
               if List.member [''max'', ''maximum''] operation
               then Inr (''show the row where '' @ column @ '' is maximum'')
               else if List.member [''min'', ''minimum''] operation
               then Inr (''show the row where '' @ column @ '' is minimum'')
               else Inr (''calculate the '' @ operation @ '' of '' @ column))
      | None \<Rightarrow> Inr question)"

definition pattern_0e :: rule where
  "pattern_0e question_lower question =
     (case re_match what_are_pattern question_lower of
        Some (gs, _) \<Rightarrow>
          if \<not> contains ''unique'' question_lower
          then (case group1 gs of
                  Inl e \<Rightarrow> Inl e
                | Inr column \<Rightarrow> Inr (''show unique values in '' @ column @ '' column''))
          else Inr question
      | None \<Rightarrow> Inr question)"

definition pattern_0f :: rule where
  "pattern_0f question_lower question =
     (case re_match where_pattern question_lower of
        Some _ \<Rightarrow>
          (let condition = replace ''where are '' '''' (replace ''where is '' '''' question_lower)
           in Inr (''show rows where '' @ condition))
      | None \<Rightarrow> Inr question)"

definition pattern_0g :: rule where
  "pattern_0g question_lower question =
     (case re_match can_you_pattern question_lower of
        Some (gs, _) \<Rightarrow>
          (case unpack2 gs of
             Inl e \<Rightarrow> Inl e
           | Inr (action, rest) \<Rightarrow> Inr (action @ '' '' @ rest))
      | None \<Rightarrow> Inr question)"

definition pattern_0h :: rule where
  "pattern_0h question_lower question =
     (case re_match i_want_pattern question_lower of
        Some (gs, _) \<Rightarrow>
          (case unpack2 gs of
             Inl e \<Rightarrow> Inl e
           | Inr (_, rest) \<Rightarrow> Inr (''show '' @ rest))
      | None \<Rightarrow> Inr question)"

definition pattern_0i :: rule where
  "pattern_0i question_lower question =
     (if startswith question_lower ''tell me ''
      then (let rest = replace ''tell me '' '''' question_lower in Inr (''show '' @ rest))
      else Inr question)"

definition pattern_0j :: rule where
  "pattern_0j question_lower question =
     (if startswith question_lower ''give me ''
      then (let rest = replace ''give me '' '''' question_lower in Inr (''show '' @ rest))
      else Inr question)"

text \<open>Pattern 1: the loop over \<open>patterns_max_min\<close>, left at the first pattern that matches.\<close>

fun max_min_loop :: "(matcher \<times> (string \<times> string)) list \<Rightarrow> rule" where
  "max_min_loop [] question_lower question = Inr question"
| "max_min_loop ((pattern, replacement) # ps) question_lower question =
     (case re_match pattern question_lower of
        Some _ \<Rightarrow> re_sub pattern replacement question_lower
      | None \<Rightarrow> max_min_loop ps question_lower question)"

definition pattern_1 :: rule where
  "pattern_1 = max_min_loop patterns_max_min"

text \<open>Patterns 2 and 3 build the same sentence.\<close>

definition sort_sentence :: "string list \<Rightarrow> py_error + string" where
  "sort_sentence gs =
     (case unpack2 gs of
        Inl e \<Rightarrow> Inl e
      | Inr (n, column) \<Rightarrow>
          Inr (''sort by '' @ column @ '' descending and show first '' @ n @ '' rows''))"

definition pattern_2 :: rule where
  "pattern_2 question_lower question =
     (case re_match top_pattern question_lower of
        Some (gs, _) \<Rightarrow> sort_sentence gs
      | None \<Rightarrow> Inr question)"

definition pattern_3 :: rule where
  "pattern_3 question_lower question =
     (case re_match sort_top_pattern question_lower of
        Some (gs, _) \<Rightarrow> sort_sentence gs
      | None \<Rightarrow> Inr question)"

text \<open>Pattern 4 reads the current \<open>question\<close>: \<^verbatim>\<open>question.split()[1]\<close>.\<close>

definition pattern_4 :: rule where
  "pattern_4 question_lower question =
     (if startswith question_lower ''average '' \<and> length (split question) = 2
      then (case index (split question) 1 of
              Inl e \<Rightarrow> Inl e
            | Inr column \<Rightarrow> Inr (''calculate the average of '' @ column))
      else Inr question)"

definition pattern_5 :: rule where
  "pattern_5 question_lower question =
     (case re_match dept_pattern question_lower of
        Some (gs, _) \<Rightarrow>
          if \<not> startswith question_lower ''show''
          then (case group1 gs of
                  Inl e \<Rightarrow> Inl e
                | Inr dept \<Rightarrow> Inr (''show all rows where department equals '' @ dept))
          else Inr question
      | None \<Rightarrow> Inr question)"

definition pattern_6 :: rule where
  "pattern_6 question_lower question =
     (if List.member [''oldest'', ''who is oldest'', ''oldest employee'', ''who is the oldest'']
           question_lower
      then Inr ''show the row where age is maximum''
      else if List.member
           [''youngest'', ''who is youngest'', ''youngest employee'', ''who is the youngest'']
           question_lower
      then Inr ''show the row where age is minimum''
      else if List.member
           [''best performer'', ''best employee'', ''highest performer'', ''who is the best'']
           question_lower
      then Inr ''show the row where performance_score is maximum''
      else Inr question)"

definition action_words :: "string list" where
  "action_words = [''show'', ''display'', ''get'', ''find'', ''calculate'', ''list'', ''count'']"

definition pattern_7 :: rule where
  "pattern_7 question_lower question =
     (if \<not> list_ex (\<lambda>word. startswith question_lower word) action_words
      then (if list_ex (\<lambda>word. contains word question_lower)
                 [''sort'', ''filter'', ''where'', ''group'']
            then Inr (''show '' @ question)
            else Inr question)
      else Inr question)"

text \<open>Pattern 8: the dictionary is walked in the order it is written.\<close>

definition replacements :: "(string \<times> string) list" where
  "replacements =
     [('' exp '', '' experience ''),
      ('' perf '', '' performance ''),
      ('' dept '', '' department ''),
      ('' sal '', '' salary ''),
      ('' avg '', '' average '')]"

definition pattern_8 :: rule where
  "pattern_8 question_lower question =
     Inr (foldl (\<lambda>q (old, new). replace old new q) question replacements)"

text \<open>The blocks in the order of the source; an exception ends the function.\<close>

fun run_rules :: "(string \<Rightarrow> py_error + string) list \<Rightarrow> string \<Rightarrow> py_error + string" where
  "run_rules [] question = Inr question"
| "run_rules (r # rs) question =
     (case r question of Inl e \<Rightarrow> Inl e | Inr question' \<Rightarrow> run_rules rs question')"

definition normalize_query :: "string \<Rightarrow> py_error + string" where
  "normalize_query q =
     (let question = strip q;
          question_lower = lower question
      in run_rules
           [pattern_0 question_lower, pattern_0c question_lower, pattern_0d question_lower,
            pattern_0e question_lower, pattern_0f question_lower, pattern_0g question_lower,
            pattern_0h question_lower, pattern_0i question_lower, pattern_0j question_lower,
            pattern_1 question_lower, pattern_2 question_lower, pattern_3 question_lower,
            pattern_4 question_lower, pattern_5 question_lower, pattern_6 question_lower,
            pattern_7 question_lower, pattern_8 question_lower]
           question)"

section \<open>The orchestrator: \<open>DataAnalysisAgent.query\<close> (agent.py)\<close>

subsection \<open>The product \<^verbatim>\<open>len(question) * 0.7\<close>\<close>

text \<open>
  The test \<^verbatim>\<open>len(normalized_question) > len(question) * 0.7\<close> multiplies an integer by the
  binary64 constant \<^verbatim>\<open>0.7\<close> and compares an integer with the rounded product; the branch
  taken depends on that rounding, so it is modelled exactly. The constant is
  \<open>6305039478318694 / 2^53\<close> (hexadecimal \<^verbatim>\<open>0x1.6666666666666p-1\<close>), a length below \<open>2^53\<close>
  converts to binary64 without error, and the product is the exact product rounded to 53
  significant bits, ties to even. Python compares an \<^verbatim>\<open>int\<close> with a \<^verbatim>\<open>float\<close> by their
  exact values.
\<close>

definition round53 :: "nat \<Rightarrow> nat" where
  "round53 p =
     (let k = bit_length p - 53
      in if k = 0 then p
         else (let q = p div 2 ^ k; r = p mod 2 ^ k; h = 2 ^ (k - 1)
               in (if h < r \<or> (r = h \<and> odd q) then q + 1 else q) * 2 ^ k))"

definition times_0_7 :: "nat \<Rightarrow> rat" where
  "times_0_7 n = of_nat (round53 (n * 6305039478318694)) / 2 ^ 53"

subsection \<open>The agent and its results\<close>

text \<open>
  What the external agent returns: \<^verbatim>\<open>None\<close>, a string, a dictionary, or any other object
  (a DataFrame, a number). \<^verbatim>\<open>self.agent.invoke\<close> is a function from the instruction to
  the value it returns or to the text \<^verbatim>\<open>str(e)\<close> of the exception it raises.
\<close>

datatype pyval = PyNone | PyStr string | PyDict "(string \<times> pyval) list" | PyObj nat

type_synonym invoke = "string \<Rightarrow> string + pyval"

record data_analysis_agent =
  self_api_key :: string
  self_model_name :: string
  self_agent :: "invoke option"
  self_df :: "string list option"

text \<open>
  The fields are the attributes of \<^verbatim>\<open>self\<close>. The field \<open>self_df\<close> holds what \<open>query\<close> reads of the table:
  \<^verbatim>\<open>self.df.columns.tolist()\<close>, the list of column names; it is \<open>None\<close> until
  \<^verbatim>\<open>initialize_agent\<close> has run.
\<close>

record query_result =
  success :: bool
  result :: pyval
  error :: "string option"

text \<open>\<^verbatim>\<open>str(e)\<close> for the exceptions of this model.\<close>

fun error_text :: "py_error \<Rightarrow> string" where
  "error_text (IndexError msg) = msg"
| "error_text (ValueError msg) = msg"
| "error_text (AttributeError msg) = msg"

text \<open>Lines 243 and 244: which text goes on.\<close>

definition accept_normalized :: "string \<Rightarrow> string \<Rightarrow> string" where
  "accept_normalized question normalized_question =
     (if normalized_question \<noteq> question \<and>
         times_0_7 (length question) < of_nat (length normalized_question)
      then normalized_question
      else question)"

text \<open>Lines 247 to 250.\<close>

definition enhanced_question :: "string \<Rightarrow> string" where
  "enhanced_question question =
     (if list_ex (\<lambda>word. contains word (lower question))
           [''show'', ''display'', ''get'', ''find'', ''sort'', ''filter'', ''calculate'']
      then question
      else ''Show me: '' @ question)"

text \<open>Lines 255 to 275: the output taken from the value the agent returned.\<close>

definition extract_output :: "pyval \<Rightarrow> pyval" where
  "extract_output res =
     (let output =
            (case res of
               PyDict kvs \<Rightarrow>
                 (case map_of kvs ''output'' of
                    Some v \<Rightarrow> v
                  | None \<Rightarrow> (case map_of kvs ''result'' of Some v \<Rightarrow> v | None \<Rightarrow> res))
             | _ \<Rightarrow> res)
      in (case output of
            PyNone \<Rightarrow> PyStr ''Query executed successfully but returned no output.''
          | PyStr s \<Rightarrow>
              if strip s = [] then PyStr ''Query executed successfully but returned no output.''
              else output
          | _ \<Rightarrow> output))"

definition failure :: "string \<Rightarrow> query_result" where
  "failure error_msg = \<lparr>success = False, result = PyNone, error = Some error_msg\<rparr>"

text \<open>
  The \<^verbatim>\<open>except\<close> block, lines 283 to 301. Reading \<^verbatim>\<open>self.df.columns\<close> when \<open>self.df\<close> is
  \<^verbatim>\<open>None\<close> raises inside the handler, and that exception leaves \<open>query\<close>.
\<close>

definition handle_exception :: "data_analysis_agent \<Rightarrow> string \<Rightarrow> py_error + query_result" where
  "handle_exception self error_msg =
     (if contains ''Could not parse LLM output'' error_msg
      then Inr (failure (''The AI is having trouble understanding this query. '' @
                  ''Try using simpler phrasing like '' @ [CHR 0x27] @ ''show first 5 rows'' @ [CHR 0x27] @
                  '' or '' @ [CHR 0x27] @ ''calculate average salary'' @ [CHR 0x27] @ ''.''))
      else if contains ''column'' (lower error_msg) \<and> contains ''not found'' (lower error_msg)
      then (case self_df self of
              None \<Rightarrow> Inl (AttributeError ([CHR 0x27] @ ''NoneType'' @ [CHR 0x27] @ '' object has no attribute '' @
                     [CHR 0x27] @ ''columns'' @ [CHR 0x27]))
            | Some columns \<Rightarrow>
                Inr (failure (''Column not found. Available columns are: '' @ join '', '' columns)))
      else if contains ''parsing'' (lower error_msg)
      then Inr (failure (''Query format issue. Try rephrasing more simply, '' @
                  ''like '' @ [CHR 0x27] @ ''show rows where salary > 80000'' @ [CHR 0x27] @ ''.''))
      else if 200 < length error_msg
      then Inr (failure (take 200 error_msg @ ''... (Try a simpler query)''))
      else Inr (failure error_msg))"

definition query :: "data_analysis_agent \<Rightarrow> string \<Rightarrow> py_error + query_result" where
  "query self question =
     (case self_agent self of
        None \<Rightarrow> Inr (failure ''Agent not initialized. Please upload a CSV first.'')
      | Some invoke \<Rightarrow>
          (case normalize_query question of
             Inl e \<Rightarrow> handle_exception self (error_text e)
           | Inr normalized_question \<Rightarrow>
               (case invoke (enhanced_question (accept_normalized question normalized_question)) of
                  Inl error_msg \<Rightarrow> handle_exception self error_msg
                | Inr res \<Rightarrow>
                    Inr \<lparr>success = True, result = extract_output res, error = None\<rparr>)))"

subsection \<open>The number of groups of a pattern\<close>

text \<open>
  A matcher adds \<open>k\<close> groups when every state in which it can stop holds \<open>k\<close> groups more than
  the state in which it started. (A notion for the proofs; the program does not compute it.)
\<close>

definition adds :: "nat \<Rightarrow> matcher \<Rightarrow> bool" where
  "adds k m = (\<forall>gs s. \<forall>st \<in> set (m (gs, s)). length (fst st) = length gs + k)"

section \<open>Properties of the binary64 operations\<close>

lemma bit_length_eq: "2 ^ k \<le> n \<Longrightarrow> n < 2 ^ Suc k \<Longrightarrow> bit_length n = Suc k"
proof (induction k arbitrary: n)
  case 0
  then have "n = 1" by simp
  then show ?case by (simp add: bit_length.simps)
next
  case (Suc k)
  have "2 ^ k \<le> n div 2" using Suc.prems(1) by simp
  moreover have "n div 2 < 2 ^ Suc k" using Suc.prems(2) by simp
  ultimately have "bit_length (n div 2) = Suc k" by (rule Suc.IH)
  moreover have "(0::nat) < 2 ^ Suc k" by simp
  then have "n \<noteq> 0" using Suc.prems(1) by linarith
  ultimately show ?case by (subst bit_length.simps) simp
qed

lemma bit_length_bounds: "0 < n \<Longrightarrow> 2 ^ (bit_length n - 1) \<le> n \<and> n < 2 ^ bit_length n"
proof (induction n rule: bit_length.induct)
  case (1 n)
  show ?case
  proof (cases "n div 2 = 0")
    case True
    then have "n = 1" using "1.prems" by (simp add: div_eq_0_iff)
    then show ?thesis by (simp add: bit_length.simps)
  next
    case False
    then have pos: "0 < n div 2" by simp
    have n0: "n \<noteq> 0" using "1.prems" by simp
    have IH: "2 ^ (bit_length (n div 2) - 1) \<le> n div 2 \<and> n div 2 < 2 ^ bit_length (n div 2)"
      using "1.IH" [OF n0 pos] .
    have bl: "bit_length n = Suc (bit_length (n div 2))"
      using n0 by (subst bit_length.simps) simp
    have blpos: "0 < bit_length (n div 2)"
      using pos by (subst bit_length.simps) simp
    then have "(2::nat) ^ bit_length (n div 2) = 2 * 2 ^ (bit_length (n div 2) - 1)"
      by (cases "bit_length (n div 2)") simp_all
    then have "2 ^ bit_length (n div 2) \<le> 2 * (n div 2)" using IH by simp
    then have lo: "2 ^ bit_length (n div 2) \<le> n" by linarith
    have "n < 2 * (n div 2) + 2" by linarith
    then have hi: "n < 2 * 2 ^ bit_length (n div 2)" using IH by linarith
    show ?thesis using lo hi by (simp add: bl)
  qed
qed

lemma two_powi_split: "(2::real) powi d = 2 ^ nat d / 2 ^ nat (- d)"
proof (cases "0 \<le> d")
  case True
  then show ?thesis by (simp add: power_int_def)
next
  case False
  have "(2::real) powi d = inverse (2 powi (- d))"
    using power_int_minus [of "2::real" "- d"] by simp
  moreover have "(2::real) powi (- d) = 2 ^ nat (- d)"
    using False by (simp add: power_int_def)
  moreover have "nat d = 0" using False by simp
  ultimately show ?thesis by (simp add: inverse_eq_divide)
qed

lemma rne_error:
  assumes "0 < b"
  shows "\<bar>real (rne a b) - real a / real b\<bar> \<le> 1 / 2"
proof -
  define q where "q = a div b"
  define r where "r = a mod b"
  have a: "a = q * b + r" by (simp add: q_def r_def)
  have rb: "r < b" using assms by (simp add: r_def)
  have bpos: "0 < real b" using assms by simp
  have quot: "real a / real b = real q + real r / real b"
    using bpos by (simp add: a add_divide_distrib)
  show ?thesis
  proof (cases "b < 2 * r \<or> (2 * r = b \<and> odd q)")
    case True
    then have val: "rne a b = q + 1" by (simp add: rne_def q_def r_def Let_def)
    from True have "b \<le> 2 * r" by auto
    then have "real b \<le> 2 * real r" by (metis of_nat_le_iff of_nat_mult of_nat_numeral)
    then have "1 / 2 \<le> real r / real b" using bpos by (simp add: field_simps)
    moreover have "real r / real b < 1" using rb bpos by simp
    moreover have "real (q + 1) = real q + 1" by simp
    ultimately show ?thesis unfolding val quot by linarith
  next
    case False
    then have val: "rne a b = q" by (simp add: rne_def q_def r_def Let_def)
    from False have "2 * r \<le> b" by auto
    then have "2 * real r \<le> real b" by (metis of_nat_le_iff of_nat_mult of_nat_numeral)
    then have "real r / real b \<le> 1 / 2" using bpos by (simp add: field_simps)
    moreover have "0 \<le> real r / real b" by simp
    ultimately show ?thesis unfolding val quot by linarith
  qed
qed

lemma rne_le:
  assumes "0 < b" and "a \<le> k * b"
  shows "rne a b \<le> k"
proof -
  have q: "a div b \<le> k" using assms by (metis div_le_mono div_mult_self_is_m)
  show ?thesis
  proof (cases "a div b = k")
    case True
    then have "k * b \<le> a" using assms(1) by (metis div_times_less_eq_dividend)
    then have "a = k * b" using assms(2) by simp
    then have "a mod b = 0" by simp
    then show ?thesis using True assms(1) by (simp add: rne_def Let_def)
  next
    case False
    then have "a div b < k" using q by simp
    then show ?thesis by (simp add: rne_def Let_def)
  qed
qed

lemma ilog2_bounds:
  assumes "0 < a" and "0 < b"
  shows "2 powi ilog2 a b \<le> real a / real b" and "real a / real b < 2 powi (ilog2 a b + 1)"
proof -
  define la where "la = bit_length a"
  define lb where "lb = bit_length b"
  define d where "d = int la - int lb"
  have la: "2 ^ (la - 1) \<le> a" "a < 2 ^ la" using bit_length_bounds [OF assms(1)] by (simp_all add: la_def)
  have lb: "2 ^ (lb - 1) \<le> b" "b < 2 ^ lb" using bit_length_bounds [OF assms(2)] by (simp_all add: lb_def)
  have lapos: "0 < la" using la(2) assms(1) by (cases la) simp_all
  have lbpos: "0 < lb" using lb(2) assms(2) by (cases lb) simp_all
  have ra: "(2::real) ^ (la - 1) \<le> real a" "real a < 2 ^ la"
    using la by (metis of_nat_le_iff of_nat_numeral of_nat_power, metis of_nat_less_iff of_nat_numeral of_nat_power)
  have rb: "(2::real) ^ (lb - 1) \<le> real b" "real b < 2 ^ lb"
    using lb by (metis of_nat_le_iff of_nat_numeral of_nat_power, metis of_nat_less_iff of_nat_numeral of_nat_power)
  have bpos: "0 < real b" and apos: "0 < real a" using assms by simp_all
  have pla: "(2::real) ^ la = 2 powi int la" and plb: "(2::real) ^ lb = 2 powi int lb" by simp_all
  have pla1: "(2::real) ^ (la - 1) = 2 powi (int la - 1)"
    using lapos by (simp add: power_int_def nat_diff_distrib')
  have plb1: "(2::real) ^ (lb - 1) = 2 powi (int lb - 1)"
    using lbpos by (simp add: power_int_def nat_diff_distrib')
  \<comment> \<open>the quotient lies strictly between \<open>2^(d-1)\<close> and \<open>2^(d+1)\<close>\<close>
  have up: "real a / real b < 2 powi (d + 1)"
  proof -
    have "real a / real b < 2 powi int la / 2 powi (int lb - 1)"
      using ra(2) rb(1) bpos apos unfolding pla plb1
      by (intro frac_less) simp_all
    also have "\<dots> = 2 powi (int la - (int lb - 1))"
      by (rule power_int_diff [symmetric]) simp
    also have "int la - (int lb - 1) = d + 1" by (simp add: d_def)
    finally show ?thesis .
  qed
  have low: "2 powi (d - 1) \<le> real a / real b"
  proof -
    have "2 powi (int la - 1) / 2 powi int lb \<le> real a / real b"
      using ra(1) less_imp_le [OF rb(2)] bpos apos unfolding pla1 [symmetric] plb [symmetric]
      by (intro frac_le) simp_all
    moreover have "2 powi (int la - 1) / 2 powi int lb = (2::real) powi (int la - 1 - int lb)"
      by (rule power_int_diff [symmetric]) simp
    moreover have "int la - 1 - int lb = d - 1" by (simp add: d_def)
    ultimately show ?thesis by simp
  qed
  have test: "b * 2 ^ nat d \<le> a * 2 ^ nat (- d) \<longleftrightarrow> 2 powi d \<le> real a / real b"
  proof -
    define X :: real where "X = 2 ^ nat d"
    define Y :: real where "Y = 2 ^ nat (- d)"
    have X: "0 < X" and Y: "0 < Y" by (simp_all add: X_def Y_def)
    have "b * 2 ^ nat d \<le> a * 2 ^ nat (- d) \<longleftrightarrow>
          real (b * 2 ^ nat d) \<le> real (a * 2 ^ nat (- d))"
      by (simp only: of_nat_le_iff)
    also have "\<dots> \<longleftrightarrow> real b * X \<le> real a * Y"
      by (simp add: X_def Y_def)
    also have "\<dots> \<longleftrightarrow> X / Y \<le> real a / real b"
    proof -
      have "X / Y \<le> real a / real b \<longleftrightarrow> X \<le> real a / real b * Y"
        using Y by (rule pos_divide_le_eq)
      also have "\<dots> \<longleftrightarrow> X \<le> (real a * Y) / real b" by simp
      also have "\<dots> \<longleftrightarrow> X * real b \<le> real a * Y"
        using bpos by (rule pos_le_divide_eq)
      finally show ?thesis by (simp add: mult.commute)
    qed
    also have "X / Y = 2 powi d" by (simp add: X_def Y_def two_powi_split)
    finally show ?thesis .
  qed
  have il: "ilog2 a b = (if 2 powi d \<le> real a / real b then d else d - 1)"
    unfolding ilog2_def la_def [symmetric] lb_def [symmetric] d_def [symmetric] Let_def test ..
  show "2 powi ilog2 a b \<le> real a / real b"
    using low by (simp add: il)
  show "real a / real b < 2 powi (ilog2 a b + 1)"
    using up by (simp add: il not_le)
qed

lemma float_value_nonneg: "0 \<le> float_value x"
  by (cases x) (simp add: float_value_def)

lemma float_value_fraction:
  "float_value (m, e) = real (m * 2 ^ nat e) / real (2 ^ nat (- e))"
  by (simp add: float_value_def two_powi_split)

lemma scaled_fraction:
  assumes "0 < b"
  shows "real (a * 2 ^ nat (- e)) / real (b * 2 ^ nat e) = (real a / real b) / 2 powi e"
  using assms by (simp add: two_powi_split)

lemma round_binary64_error:
  assumes "0 < b"
  shows "\<bar>float_value (round_binary64 a b) - real a / real b\<bar> \<le> (real a / real b) / 2 ^ 53"
proof (cases "a = 0")
  case True
  then show ?thesis by (simp add: round_binary64_def float_value_def)
next
  case False
  then have apos: "0 < a" by simp
  define e where "e = ilog2 a b - 52"
  define x where "x = real a / real b"
  define p :: real where "p = 2 powi e"
  define m where "m = rne (a * 2 ^ nat (- e)) (b * 2 ^ nat e)"
  have ppos: "0 < p" by (simp add: p_def)
  have val: "float_value (round_binary64 a b) = real m * p"
    using False
    by (simp add: round_binary64_def float_value_def Let_def e_def [symmetric] m_def p_def)
  have "0 < b * 2 ^ nat e" using assms by simp
  then have "\<bar>real m - real (a * 2 ^ nat (- e)) / real (b * 2 ^ nat e)\<bar> \<le> 1 / 2"
    unfolding m_def by (rule rne_error)
  then have err: "\<bar>real m - x / p\<bar> \<le> 1 / 2"
    unfolding scaled_fraction [OF assms] x_def p_def .
  have "\<bar>real m * p - x\<bar> = \<bar>real m - x / p\<bar> * p"
  proof -
    have "real m * p - x = (real m - x / p) * p" using ppos by (simp add: field_simps)
    then show ?thesis using ppos by (simp add: abs_mult)
  qed
  also have "\<dots> \<le> 1 / 2 * p" using err ppos by (intro mult_right_mono) simp_all
  finally have 1: "\<bar>real m * p - x\<bar> \<le> p / 2" by simp
  have "2 powi ilog2 a b \<le> x" unfolding x_def using apos assms by (rule ilog2_bounds)
  moreover have "(2::real) powi ilog2 a b = 2 powi (e + 52)" by (simp add: e_def)
  moreover have "(2::real) powi (e + 52) = p * 2 ^ 52"
    unfolding p_def by (subst power_int_add) simp_all
  ultimately have "p * 2 ^ 52 \<le> x" by simp
  then have "p / 2 \<le> x / 2 ^ 53" by simp
  then show ?thesis using 1 unfolding val x_def [symmetric] by linarith
qed

lemma round_binary64_le:
  assumes "0 < b" and "a \<le> N * b" and "N < 2 ^ 53"
  shows "float_value (round_binary64 a b) \<le> real N"
proof (cases "a = 0")
  case True
  then show ?thesis by (simp add: round_binary64_def float_value_def)
next
  case False
  then have apos: "0 < a" by simp
  define e where "e = ilog2 a b - 52"
  define m where "m = rne (a * 2 ^ nat (- e)) (b * 2 ^ nat e)"
  have val: "float_value (round_binary64 a b) = real m * 2 powi e"
    using False
    by (simp add: round_binary64_def float_value_def Let_def e_def [symmetric] m_def)
  have bpos: "0 < real b" using assms(1) by simp
  have "real a \<le> real (N * b)" using assms(2) by (simp only: of_nat_le_iff)
  then have "real a / real b \<le> real N" using bpos by (simp add: pos_divide_le_eq)
  moreover have "2 powi ilog2 a b \<le> real a / real b" using apos assms(1) by (rule ilog2_bounds)
  moreover have "real N < 2 ^ 53"
    using assms(3) by (metis of_nat_less_iff of_nat_numeral of_nat_power)
  ultimately have "(2::real) powi ilog2 a b < 2 powi 53" by simp
  then have "ilog2 a b < 53" by (rule power_int_le_imp_less_exp [rotated]) simp_all
  then have e: "e \<le> 0" by (simp add: e_def)
  then have ne: "nat e = 0" by simp
  have "a * 2 ^ nat (- e) \<le> (N * 2 ^ nat (- e)) * b"
    using assms(2) by (simp add: mult.assoc mult.left_commute mult.commute)
  then have "m \<le> N * 2 ^ nat (- e)"
    unfolding m_def ne using assms(1) by (intro rne_le) simp_all
  then have "real m \<le> real (N * 2 ^ nat (- e))" by (simp only: of_nat_le_iff)
  then have "real m * 2 powi e \<le> real (N * 2 ^ nat (- e)) * 2 powi e"
    by (intro mult_right_mono) simp_all
  also have "\<dots> = real N" by (simp add: two_powi_split ne)
  finally show ?thesis unfolding val .
qed

section \<open>Tracker properties\<close>

lemma successful_length: "successful h = length (filter entry_success h)"
  unfolding successful_def by (induction h) simp_all

lemma successful_le: "successful h \<le> length h"
  by (simp add: successful_length)

lemma slice_from_neg:
  assumes "0 < n"
  shows "slice_from xs (- n) = drop (length xs - nat n) xs"
proof -
  have "nat (max 0 (int (length xs) - n)) = length xs - nat n"
    using assms by (simp add: max_def nat_diff_distrib')
  with assms show ?thesis by (simp add: slice_from_def)
qed

text \<open>
  For a positive count the slice is the last \<open>min n (length h)\<close> entries, in the order of the
  history.
\<close>

lemma get_recent_queries_pos:
  assumes "0 < n"
  shows "get_recent_queries h n = drop (length h - min (nat n) (length h)) h"
    and "length (get_recent_queries h n) = min (nat n) (length h)"
  using assms by (simp_all add: get_recent_queries_def slice_from_neg min_def)

text \<open>
  Claim C7: for every history and every requested count \<open>n\<close>, \<open>recent(n)\<close> returns the last
  \<open>min(n, length)\<close> entries. The docstring of \<^verbatim>\<open>get_recent_queries\<close> says the same
  ("Get the n most recent queries"). For \<open>n = 0\<close> the slice \<^verbatim>\<open>history[-0:]\<close> is
  \<^verbatim>\<open>history[0:]\<close>: the whole history comes back, not the last 0 entries.
\<close>

theorem get_recent_queries_zero:
  "get_recent_queries
     [\<lparr>entry_timestamp = ''t1'', entry_query = ''show rows'', entry_success = True, entry_error = None\<rparr>,
      \<lparr>entry_timestamp = ''t2'', entry_query = ''top 5'', entry_success = False, entry_error = Some ''e''\<rparr>] 0
   = [\<lparr>entry_timestamp = ''t1'', entry_query = ''show rows'', entry_success = True, entry_error = None\<rparr>,
      \<lparr>entry_timestamp = ''t2'', entry_query = ''top 5'', entry_success = False, entry_error = Some ''e''\<rparr>]"
  by (simp add: get_recent_queries_def slice_from_def)

subsection \<open>The success rate\<close>

lemma get_success_rate_nonempty:
  assumes "h \<noteq> []"
  obtains m e where "true_divide (successful h) (length h) = (m, e)"
    and "get_success_rate h =
         float_value (round_binary64 (m * 100 * 2 ^ nat e) (2 ^ nat (- e)))"
proof -
  obtain m e where me: "true_divide (successful h) (length h) = (m, e)"
    by (cases "true_divide (successful h) (length h)")
  then have "get_success_rate h =
         float_value (round_binary64 (m * 100 * 2 ^ nat e) (2 ^ nat (- e)))"
    using assms by (simp add: get_success_rate_def float_mul_int_def)
  with me show ?thesis by (rule that)
qed

lemma get_success_rate_error:
  assumes "h \<noteq> []"
  shows "\<bar>get_success_rate h - 100 * real (successful h) / real (length h)\<bar>
         \<le> (100 * real (successful h) / real (length h)) / 2 ^ 51"
proof -
  define x where "x = real (successful h) / real (length h)"
  define u :: real where "u = 1 / 2 ^ 53"
  have x0: "0 \<le> x" by (simp add: x_def)
  have len: "0 < length h" using assms by simp
  obtain m e where me: "true_divide (successful h) (length h) = (m, e)"
    and rate: "get_success_rate h =
         float_value (round_binary64 (m * 100 * 2 ^ nat e) (2 ^ nat (- e)))"
    using assms by (rule get_success_rate_nonempty)
  define y where "y = float_value (m, e)"
  have "\<bar>float_value (round_binary64 (successful h) (length h)) - x\<bar> \<le> x / 2 ^ 53"
    unfolding x_def using len by (rule round_binary64_error)
  then have ey: "\<bar>y - x\<bar> \<le> x * u"
    using me by (simp add: true_divide_def y_def u_def)
  have "real (m * 100 * 2 ^ nat e) / real (2 ^ nat (- e)) = 100 * y"
    by (simp add: y_def float_value_fraction)
  moreover have "\<bar>get_success_rate h -
          real (m * 100 * 2 ^ nat e) / real (2 ^ nat (- e))\<bar>
        \<le> (real (m * 100 * 2 ^ nat e) / real (2 ^ nat (- e))) / 2 ^ 53"
    unfolding rate by (rule round_binary64_error) simp
  ultimately have er: "\<bar>get_success_rate h - 100 * y\<bar> \<le> 100 * y * u"
    by (simp add: u_def)
  have u: "0 \<le> u" "u \<le> 1" by (simp_all add: u_def)
  have xu: "0 \<le> x * u" using x0 u by simp
  have y1: "y \<le> x + x * u" using ey by linarith
  have "100 * y * u \<le> 100 * (x + x * u) * u"
    using y1 u by (intro mult_right_mono mult_left_mono) simp_all
  also have "\<dots> = 100 * (x * u) + 100 * ((x * u) * u)" by (simp add: algebra_simps)
  also have "\<dots> \<le> 100 * (x * u) + 100 * (x * u)"
  proof -
    have "(x * u) * u \<le> x * u" using u(2) xu by (rule mult_left_le)
    then show ?thesis by linarith
  qed
  finally have 1: "100 * y * u \<le> 200 * (x * u)" by simp
  have "\<bar>get_success_rate h - 100 * x\<bar> \<le> 100 * y * u + 100 * (x * u)"
    using er ey by linarith
  then have "\<bar>get_success_rate h - 100 * x\<bar> \<le> 300 * (x * u)" using 1 by linarith
  also have "\<dots> \<le> 400 * (x * u)" using xu by linarith
  also have "\<dots> = (100 * x) / 2 ^ 51" by (simp add: u_def)
  finally show ?thesis by (simp add: x_def)
qed

text \<open>
  The rate differs from the exact percentage by the two roundings at most, each with a
  relative error of at most \<open>2^-53\<close>.
\<close>

lemma true_divide_11_20: "true_divide 11 20 = (4953959590107546, - 53)"
proof -
  have "bit_length 11 = Suc 3" by (rule bit_length_eq) simp_all
  moreover have "bit_length 20 = Suc 4" by (rule bit_length_eq) simp_all
  ultimately have "ilog2 11 20 = - 1" by (simp add: ilog2_def)
  then show ?thesis by (simp add: true_divide_def round_binary64_def rne_def Let_def)
qed

lemma float_mul_int_55: "float_mul_int (4953959590107546, - 53) 100 = (7740561859543041, - 47)"
proof -
  have "bit_length 495395959010754600 = Suc 58" by (rule bit_length_eq) simp_all
  moreover have "bit_length 9007199254740992 = Suc 53" by (rule bit_length_eq) simp_all
  ultimately have "ilog2 495395959010754600 9007199254740992 = 5" by (simp add: ilog2_def)
  then show ?thesis by (simp add: float_mul_int_def round_binary64_def rne_def Let_def)
qed

text \<open>
  Three successes and two failures give exactly 60: here both roundings cancel, and Python
  prints \<^verbatim>\<open>60.0\<close>.
\<close>

lemma get_success_rate_three_of_five:
  "get_success_rate
     (run_ops [Log ''t1'' ''q1'' True None, Log ''t2'' ''q2'' False (Some ''e''),
               Log ''t3'' ''q3'' True None, Log ''t4'' ''q4'' True None,
               Log ''t5'' ''q5'' False (Some ''e'')]) = 60"
proof -
  let ?h = "run_ops [Log ''t1'' ''q1'' True None, Log ''t2'' ''q2'' False (Some ''e''),
               Log ''t3'' ''q3'' True None, Log ''t4'' ''q4'' True None,
               Log ''t5'' ''q5'' False (Some ''e'')]"
  have s: "successful ?h = 3"
    by (simp add: successful_length run_ops_def init_history_def log_query_def)
  have l: "length ?h = 5" by (simp add: run_ops_def init_history_def log_query_def)
  have ne: "?h \<noteq> []" using l by auto
  have b3: "bit_length 3 = Suc 1" by (rule bit_length_eq) simp_all
  have b5: "bit_length 5 = Suc 2" by (rule bit_length_eq) simp_all
  have "ilog2 3 5 = - 1" by (simp add: ilog2_def b3 b5)
  then have td: "true_divide 3 5 = (5404319552844595, - 53)"
    by (simp add: true_divide_def round_binary64_def rne_def Let_def)
  have "bit_length 540431955284459500 = Suc 58" by (rule bit_length_eq) simp_all
  moreover have "bit_length 9007199254740992 = Suc 53" by (rule bit_length_eq) simp_all
  ultimately have "ilog2 540431955284459500 9007199254740992 = 5" by (simp add: ilog2_def)
  then have fm: "float_mul_int (5404319552844595, - 53) 100 = (8444249301319680, - 47)"
    by (simp add: float_mul_int_def round_binary64_def rne_def Let_def)
  have "get_success_rate ?h = float_value (float_mul_int (true_divide 3 5) 100)"
    unfolding get_success_rate_def s l using ne by simp
  also have "\<dots> = 60" unfolding td fm by (simp add: float_value_def)
  finally show ?thesis .
qed

text \<open>
  Claim C8 says that \<open>successRate()\<close> is 0.0 on the empty history and otherwise 100 times the
  number of successful entries divided by the total number of entries. For 11 successes among
  20 entries that number is 55; the code computes \<^verbatim>\<open>(11 / 20) * 100\<close>, where the quotient is
  rounded up to \<^verbatim>\<open>0x1.199999999999ap-1\<close> and the product once more, and returns
  \<open>55 + 2^-47\<close>, which Python prints as \<^verbatim>\<open>55.00000000000001\<close>.
\<close>

theorem get_success_rate_eleven_of_twenty:
  "successful
     (replicate 11 \<lparr>entry_timestamp = ''t'', entry_query = ''show rows'', entry_success = True,
                     entry_error = None\<rparr> @
      replicate 9 \<lparr>entry_timestamp = ''t'', entry_query = ''top 5'', entry_success = False,
                    entry_error = Some ''e''\<rparr>) = 11 \<and>
   get_total_queries
     (replicate 11 \<lparr>entry_timestamp = ''t'', entry_query = ''show rows'', entry_success = True,
                     entry_error = None\<rparr> @
      replicate 9 \<lparr>entry_timestamp = ''t'', entry_query = ''top 5'', entry_success = False,
                    entry_error = Some ''e''\<rparr>) = 20 \<and>
   get_success_rate
     (replicate 11 \<lparr>entry_timestamp = ''t'', entry_query = ''show rows'', entry_success = True,
                     entry_error = None\<rparr> @
      replicate 9 \<lparr>entry_timestamp = ''t'', entry_query = ''top 5'', entry_success = False,
                    entry_error = Some ''e''\<rparr>) = 55 + 1 / 2 ^ 47"
proof -
  let ?h = "replicate 11 \<lparr>entry_timestamp = ''t'', entry_query = ''show rows'', entry_success = True,
                     entry_error = None\<rparr> @
      replicate 9 \<lparr>entry_timestamp = ''t'', entry_query = ''top 5'', entry_success = False,
                    entry_error = Some ''e''\<rparr>"
  have s: "successful ?h = 11" by (simp add: successful_length)
  have l: "length ?h = 20" by simp
  have ne: "?h \<noteq> []" using l by auto
  have "get_success_rate ?h = float_value (float_mul_int (true_divide 11 20) 100)"
    unfolding get_success_rate_def s l using ne by simp
  also have "\<dots> = 55 + 1 / 2 ^ 47"
    unfolding true_divide_11_20 float_mul_int_55 by (simp add: float_value_def)
  finally show ?thesis using s l by (simp add: get_total_queries_def)
qed

text \<open>
  Claim C8, amended: \<open>successRate()\<close> is 0.0 on the empty history, and otherwise it is the
  binary64 result of \<^verbatim>\<open>(successful / total) * 100\<close>, which differs from 100 times the number
  of entries whose success flag is true, divided by the total number of entries (what
  \<open>totalCount()\<close> returns), by at most the fraction \<open>2^-51\<close> of that value. The entries are
  counted by position in the history.
\<close>

theorem get_success_rate_rounded:
  "if h = [] then get_success_rate h = 0
   else \<bar>get_success_rate h -
          100 * real (card {i. i < length h \<and> entry_success (h ! i)}) / real (get_total_queries h)\<bar>
        \<le> (100 * real (card {i. i < length h \<and> entry_success (h ! i)}) /
              real (get_total_queries h)) / 2 ^ 51"
proof (cases "h = []")
  case True
  then show ?thesis by (simp add: get_success_rate_def)
next
  case False
  have "successful h = card {i. i < length h \<and> entry_success (h ! i)}"
    by (simp add: successful_length length_filter_conv_card)
  then show ?thesis
    using False get_success_rate_error [OF False] by (simp add: get_total_queries_def)
qed

text \<open>
  Claim C10: whatever sequence of \<open>log_query\<close> and \<open>clear_history\<close> calls produced the
  history, the success rate lies between 0 and 100 inclusive.
\<close>

theorem get_success_rate_bounds:
  "0 \<le> get_success_rate (run_ops ops) \<and> get_success_rate (run_ops ops) \<le> 100"
proof -
  have "0 \<le> get_success_rate h \<and> get_success_rate h \<le> 100" for h
  proof (cases "h = []")
    case True
    then show ?thesis by (simp add: get_success_rate_def)
  next
    case False
    then have len: "0 < length h" by simp
    obtain m e where me: "true_divide (successful h) (length h) = (m, e)"
      and rate: "get_success_rate h =
           float_value (round_binary64 (m * 100 * 2 ^ nat e) (2 ^ nat (- e)))"
      using False by (rule get_success_rate_nonempty)
    have "float_value (round_binary64 (successful h) (length h)) \<le> real 1"
      using len by (rule round_binary64_le) (simp_all add: successful_le)
    then have "real (m * 2 ^ nat e) / real (2 ^ nat (- e)) \<le> 1"
      using me by (simp add: true_divide_def float_value_fraction)
    then have "real (m * 2 ^ nat e) \<le> real (2 ^ nat (- e))"
      by (simp add: pos_divide_le_eq)
    then have "m * 2 ^ nat e \<le> 2 ^ nat (- e)" by (simp only: of_nat_le_iff)
    then have "m * 100 * 2 ^ nat e \<le> 100 * 2 ^ nat (- e)" by simp
    then have "float_value (round_binary64 (m * 100 * 2 ^ nat e) (2 ^ nat (- e))) \<le> real 100"
      by (intro round_binary64_le) simp_all
    then have "get_success_rate h \<le> 100" unfolding rate by simp
    moreover have "0 \<le> get_success_rate h" unfolding rate by (rule float_value_nonneg)
    ultimately show ?thesis by simp
  qed
  then show ?thesis by blast
qed

section \<open>Validation properties\<close>

lemma isnull_all_all_iff:
  "isnull_all_all df \<longleftrightarrow>
     (\<forall>j < length (df_columns df). \<forall>i < df_nrows df. df_cell df i j = None)"
  by (auto simp: isnull_all_all_def list_all_iff Option.is_none_def)

text \<open>
  Claim C6: \<open>validate\<close> returns false with a non-empty reason when the table is absent, has
  no rows, has no columns, or has only null cells; it returns \<open>(True, '''')\<close> for a table
  with at least one row, at least one column and at least one non-null cell.
\<close>

theorem validate_dataframe_cases:
  "((d = None \<or>
      (\<exists>df. d = Some df \<and>
         (df_nrows df = 0 \<or> length (df_columns df) = 0 \<or>
          (\<forall>i < df_nrows df. \<forall>j < length (df_columns df). df_cell df i j = None))))
     \<longrightarrow> fst (validate_dataframe d) = False \<and> snd (validate_dataframe d) \<noteq> '''')
   \<and>
   ((\<exists>df. d = Some df \<and> 0 < df_nrows df \<and> 0 < length (df_columns df) \<and>
         (\<exists>i < df_nrows df. \<exists>j < length (df_columns df). df_cell df i j \<noteq> None))
     \<longrightarrow> validate_dataframe d = (True, ''''))"
proof (cases d)
  case None
  then show ?thesis by (simp add: validate_dataframe_def)
next
  case (Some df)
  show ?thesis
  proof (cases "df_empty df")
    case True
    with Some show ?thesis
      by (auto simp: validate_dataframe_def df_empty_def)
  next
    case False
    then have ne: "0 < df_nrows df" "0 < length (df_columns df)"
      by (simp_all add: df_empty_def)
    show ?thesis
    proof (cases "isnull_all_all df")
      case True
      then have "\<not> (\<exists>i < df_nrows df. \<exists>j < length (df_columns df). df_cell df i j \<noteq> None)"
        by (auto simp: isnull_all_all_iff)
      with Some False True ne show ?thesis
        by (simp add: validate_dataframe_def)
    next
      case nonnull: False
      then have "\<not> (\<forall>i < df_nrows df. \<forall>j < length (df_columns df). df_cell df i j = None)"
        by (auto simp: isnull_all_all_iff)
      with Some False nonnull ne show ?thesis
        by (simp add: validate_dataframe_def)
    qed
  qed
qed

theorem validate_dataframe_cases_witness:
  "fst (validate_dataframe
      (Some \<lparr>df_columns = [''name'', ''age''], df_nrows = 2, df_cell = (\<lambda>i j. (None :: nat option))\<rparr>)) = False
   \<and> snd (validate_dataframe
      (Some \<lparr>df_columns = [''name'', ''age''], df_nrows = 2, df_cell = (\<lambda>i j. (None :: nat option))\<rparr>)) \<noteq> ''''
   \<and> validate_dataframe
      (Some \<lparr>df_columns = [''name'', ''age''], df_nrows = 2,
             df_cell = (\<lambda>i j. if i = 1 \<and> j = 1 then Some (30 :: nat) else None)\<rparr>) = (True, '''')"
proof -
  let ?nulls = "\<lparr>df_columns = [''name'', ''age''], df_nrows = 2, df_cell = (\<lambda>i j. (None :: nat option))\<rparr>"
  let ?one = "\<lparr>df_columns = [''name'', ''age''], df_nrows = 2,
             df_cell = (\<lambda>i j. if i = 1 \<and> j = 1 then Some (30 :: nat) else None)\<rparr>"
  have a: "\<exists>df. Some ?nulls = Some df \<and>
         (df_nrows df = 0 \<or> length (df_columns df) = 0 \<or>
          (\<forall>i < df_nrows df. \<forall>j < length (df_columns df). df_cell df i j = None))"
    by simp
  have "\<exists>i < df_nrows ?one. \<exists>j < length (df_columns ?one). df_cell ?one i j \<noteq> None"
    by (intro exI [of _ 1]) simp
  then have b: "\<exists>df. Some ?one = Some df \<and> 0 < df_nrows df \<and> 0 < length (df_columns df) \<and>
         (\<exists>i < df_nrows df. \<exists>j < length (df_columns df). df_cell df i j \<noteq> None)"
    by simp
  from a validate_dataframe_cases [of "Some ?nulls"] b validate_dataframe_cases [of "Some ?one"]
  show ?thesis by blast
qed
section \<open>Properties of \<open>normalize_query\<close>\<close>

subsection \<open>Questions that begin with \<^verbatim>\<open>where is\<close> or \<^verbatim>\<open>where are\<close>\<close>

text \<open>
  Claim C2. The rule for \<^verbatim>\<open>where is|are {condition}\<close> builds
  \<^verbatim>\<open>show rows where {condition}\<close>, but that is not what \<open>normalize_query\<close> returns: Pattern 7
  tests the lower-cased \<^emph>\<open>input\<close>, which begins with \<^verbatim>\<open>where\<close> (no action word) and contains
  \<^verbatim>\<open>where\<close>, and so puts a second \<^verbatim>\<open>show\<close> before the text that Pattern 0f has just built.
  The two questions below, one for each form, come back as \<^verbatim>\<open>show show rows where ...\<close>.
\<close>

theorem normalize_query_where:
  "normalize_query ''where is salary above 50000'' =
     Inr ''show show rows where salary above 50000'' \<and>
   normalize_query ''Where are sales below 10'' =
     Inr ''show show rows where sales below 10''"
  by code_simp

subsection \<open>Normalizing twice\<close>

text \<open>
  Claim C3. \<open>normalize_query\<close> is not idempotent: there is a text \<open>s\<close> whose normal form
  \<open>r\<close> is changed again by a second run. (\<^verbatim>\<open>top 5 by revenue\<close> becomes
  \<^verbatim>\<open>sort by revenue descending and show first 5 rows\<close>, which begins with no action word and
  contains \<^verbatim>\<open>sort\<close>, so the second run puts \<^verbatim>\<open>show\<close> before it.)
\<close>

theorem normalize_query_not_idempotent:
  "\<exists>s r r'. normalize_query s = Inr r \<and> normalize_query r = Inr r' \<and> r' \<noteq> r"
proof (intro exI conjI)
  show "normalize_query ''top 5 by revenue'' =
        Inr ''sort by revenue descending and show first 5 rows''"
    by code_simp
  show "normalize_query ''sort by revenue descending and show first 5 rows'' =
        Inr ''show sort by revenue descending and show first 5 rows''"
    by code_simp
  show "''show sort by revenue descending and show first 5 rows'' \<noteq>
        ''sort by revenue descending and show first 5 rows''"
    by simp
qed

section \<open>\<open>normalize_query\<close> raises nothing\<close>

subsection \<open>How many groups a pattern captures\<close>

lemma adds_lit: "adds 0 (lit p)"
  by (simp add: adds_def lit_def)

lemma adds_many1: "adds 0 (many1 P)"
  by (simp add: adds_def many1_def)

lemma adds_alt: "list_all (adds k) ms \<Longrightarrow> adds k (alt ms)"
  by (auto simp add: adds_def alt_def list_all_iff)

lemma adds_opt: "adds 0 m \<Longrightarrow> adds 0 (opt m)"
  by (auto simp add: adds_def opt_def)

lemma adds_group: "adds k m \<Longrightarrow> adds (Suc k) (group m)"
  by (fastforce simp add: adds_def group_def)

lemma adds_seqs: "list_all2 adds ks ms \<Longrightarrow> adds (sum_list ks) (seqs ms)"
proof (induction ks ms rule: list_all2_induct)
  case Nil
  show ?case by (simp add: adds_def)
next
  case (Cons k ks m ms)
  show ?case
    unfolding adds_def
  proof (intro allI ballI)
    fix gs s st
    assume "st \<in> set (seqs (m # ms) (gs, s))"
    then obtain st' where 1: "st' \<in> set (m (gs, s))" and 2: "st \<in> set (seqs ms st')"
      by auto
    have "length (fst st') = length gs + k"
      using Cons.hyps(1) 1 by (simp add: adds_def)
    moreover have "length (fst st) = length (fst st') + sum_list ks"
      using Cons.IH 2 by (cases st') (simp add: adds_def)
    ultimately show "length (fst st) = length gs + sum_list (k # ks)" by simp
  qed
qed

lemma adds_seqs0: "list_all (adds 0) ms \<Longrightarrow> adds 0 (seqs ms)"
proof -
  assume "list_all (adds 0) ms"
  then have "list_all2 adds (replicate (length ms) 0) ms"
    by (simp add: list_all2_conv_all_nth list_all_length)
  then have "adds (sum_list (replicate (length ms) 0)) (seqs ms)" by (rule adds_seqs)
  then show ?thesis by (simp add: sum_list_replicate)
qed

lemmas adds_simps = adds_lit adds_many1 adds_alt adds_opt adds_group adds_seqs0

lemma re_match_mem: "re_match m s = Some st \<Longrightarrow> st \<in> set (m ([], s))"
  by (auto simp add: re_match_def split: list.splits)

lemma re_match_adds:
  assumes "adds k m" and "re_match m s = Some (gs, r)"
  shows "length gs = k"
proof -
  have "(gs, r) \<in> set (m ([], s))" using assms(2) by (rule re_match_mem)
  then have "length (fst (gs, r)) = length ([] :: string list) + k"
    using assms(1) unfolding adds_def by blast
  then show ?thesis by simp
qed

lemma adds_how_many_grouped: "adds 2 how_many_grouped"
proof -
  have "adds (sum_list [0, 1, 0, 1]) how_many_grouped"
    unfolding how_many_grouped_def by (rule adds_seqs) (simp add: adds_simps del: seqs.simps)
  then show ?thesis by (simp add: numeral_2_eq_2)
qed

lemma adds_which_has: "adds 1 (which_has word)"
proof -
  have "adds (sum_list [0, 0, 0, 0, 0, 0, 0, 1]) (which_has word)"
    unfolding which_has_def by (rule adds_seqs) (simp add: adds_simps del: seqs.simps)
  then show ?thesis by simp
qed

lemma adds_how_much_pattern: "adds 2 how_much_pattern"
proof -
  have "adds (sum_list [0, 1, 0, 1]) how_much_pattern"
    unfolding how_much_pattern_def by (rule adds_seqs) (simp add: adds_simps del: seqs.simps)
  then show ?thesis by (simp add: numeral_2_eq_2)
qed

lemma adds_what_calc_pattern: "adds 2 what_calc_pattern"
proof -
  have "adds (sum_list [0, 1, 0, 0, 1]) what_calc_pattern"
    unfolding what_calc_pattern_def by (rule adds_seqs) (simp add: adds_simps del: seqs.simps)
  then show ?thesis by (simp add: numeral_2_eq_2)
qed

lemma adds_what_are_pattern: "adds 1 what_are_pattern"
proof -
  have "adds (sum_list [0, 1]) what_are_pattern"
    unfolding what_are_pattern_def by (rule adds_seqs) (simp add: adds_simps del: seqs.simps)
  then show ?thesis by simp
qed

lemma adds_can_you_pattern: "adds 2 can_you_pattern"
proof -
  have "adds (sum_list [0, 1, 0, 0, 1]) can_you_pattern"
    unfolding can_you_pattern_def by (rule adds_seqs) (simp add: adds_simps del: seqs.simps)
  then show ?thesis by (simp add: numeral_2_eq_2)
qed

lemma adds_i_want_pattern: "adds 2 i_want_pattern"
proof -
  have "adds (sum_list [0, 1, 0, 1]) i_want_pattern"
    unfolding i_want_pattern_def by (rule adds_seqs) (simp add: adds_simps del: seqs.simps)
  then show ?thesis by (simp add: numeral_2_eq_2)
qed

lemma adds_top_pattern: "adds 2 top_pattern"
proof -
  have "adds (sum_list [0, 0, 1, 0, 0, 1]) top_pattern"
    unfolding top_pattern_def by (rule adds_seqs) (simp add: adds_simps del: seqs.simps)
  then show ?thesis by (simp add: numeral_2_eq_2)
qed

lemma adds_sort_top_pattern: "adds 2 sort_top_pattern"
proof -
  have "adds (sum_list [0, 0, 0, 0, 0, 1, 0, 0, 0, 1]) sort_top_pattern"
    unfolding sort_top_pattern_def by (rule adds_seqs) (simp add: adds_simps del: seqs.simps)
  then show ?thesis by (simp add: numeral_2_eq_2)
qed

lemma adds_dept_pattern: "adds 1 dept_pattern"
proof -
  have "adds (sum_list [1, 0, 0]) dept_pattern"
    unfolding dept_pattern_def by (rule adds_seqs) (simp add: adds_simps del: seqs.simps)
  then show ?thesis by simp
qed

subsection \<open>No rule raises\<close>

lemma unpack2_two: "length gs = 2 \<Longrightarrow> \<exists>a b. gs = [a, b] \<and> unpack2 gs = Inr (a, b)"
  by (cases gs; cases "tl gs"; cases "tl (tl gs)") (auto simp add: unpack2_def)

lemma group1_one: "length gs = 1 \<Longrightarrow> \<exists>g. gs = [g] \<and> group1 gs = Inr g"
  by (cases gs) (auto simp add: group1_def)

lemma two_groups:
  assumes "adds 2 m" and "re_match m s = Some (gs, r)"
  obtains a b where "gs = [a, b]" and "unpack2 gs = Inr (a, b)"
proof -
  have "length gs = 2" using assms by (rule re_match_adds)
  then show ?thesis using unpack2_two that by blast
qed

lemma one_group:
  assumes "adds 1 m" and "re_match m s = Some (gs, r)"
  obtains g where "gs = [g]" and "group1 gs = Inr g"
proof -
  have "length gs = 1" using assms by (rule re_match_adds)
  then show ?thesis using group1_one that by blast
qed

lemma pattern_0_total: "\<exists>r. pattern_0 question_lower question = Inr r"
proof (cases "re_match how_many_grouped question_lower")
  case None
  then show ?thesis by (simp add: pattern_0_def Let_def)
next
  case (Some st)
  obtain gs r where st: "st = (gs, r)" by (cases st)
  obtain a b where "unpack2 gs = Inr (a, b)"
    using adds_how_many_grouped Some unfolding st by (rule two_groups)
  then show ?thesis using Some st by (simp add: pattern_0_def)
qed

lemma pattern_0c_total: "\<exists>r. pattern_0c question_lower question = Inr r"
proof (cases "re_match how_much_pattern question_lower")
  case None
  then show ?thesis by (simp add: pattern_0c_def)
next
  case (Some st)
  obtain gs r where st: "st = (gs, r)" by (cases st)
  obtain a b where "unpack2 gs = Inr (a, b)"
    using adds_how_much_pattern Some unfolding st by (rule two_groups)
  then show ?thesis using Some st by (simp add: pattern_0c_def)
qed

lemma pattern_0d_total: "\<exists>r. pattern_0d question_lower question = Inr r"
proof (cases "re_match what_calc_pattern question_lower")
  case None
  then show ?thesis by (simp add: pattern_0d_def)
next
  case (Some st)
  obtain gs r where st: "st = (gs, r)" by (cases st)
  obtain a b where "unpack2 gs = Inr (a, b)"
    using adds_what_calc_pattern Some unfolding st by (rule two_groups)
  then show ?thesis using Some st by (simp add: pattern_0d_def)
qed

lemma pattern_0e_total: "\<exists>r. pattern_0e question_lower question = Inr r"
proof (cases "re_match what_are_pattern question_lower")
  case None
  then show ?thesis by (simp add: pattern_0e_def)
next
  case (Some st)
  obtain gs r where st: "st = (gs, r)" by (cases st)
  obtain g where "group1 gs = Inr g"
    using adds_what_are_pattern Some unfolding st by (rule one_group)
  then show ?thesis using Some st by (simp add: pattern_0e_def)
qed

lemma pattern_0f_total: "\<exists>r. pattern_0f question_lower question = Inr r"
  by (simp add: pattern_0f_def Let_def split: option.split)

lemma pattern_0g_total: "\<exists>r. pattern_0g question_lower question = Inr r"
proof (cases "re_match can_you_pattern question_lower")
  case None
  then show ?thesis by (simp add: pattern_0g_def)
next
  case (Some st)
  obtain gs r where st: "st = (gs, r)" by (cases st)
  obtain a b where "unpack2 gs = Inr (a, b)"
    using adds_can_you_pattern Some unfolding st by (rule two_groups)
  then show ?thesis using Some st by (simp add: pattern_0g_def)
qed

lemma pattern_0h_total: "\<exists>r. pattern_0h question_lower question = Inr r"
proof (cases "re_match i_want_pattern question_lower")
  case None
  then show ?thesis by (simp add: pattern_0h_def)
next
  case (Some st)
  obtain gs r where st: "st = (gs, r)" by (cases st)
  obtain a b where "unpack2 gs = Inr (a, b)"
    using adds_i_want_pattern Some unfolding st by (rule two_groups)
  then show ?thesis using Some st by (simp add: pattern_0h_def)
qed

lemma pattern_0i_total: "\<exists>r. pattern_0i question_lower question = Inr r"
  by (simp add: pattern_0i_def Let_def)

lemma pattern_0j_total: "\<exists>r. pattern_0j question_lower question = Inr r"
  by (simp add: pattern_0j_def Let_def)

lemma re_sub_total:
  assumes "adds 1 m"
  shows "\<exists>r. re_sub m template s = Inr r"
proof (cases "re_match m s")
  case None
  then show ?thesis by (simp add: re_sub_def)
next
  case (Some st)
  obtain gs r where st: "st = (gs, r)" by (cases st)
  obtain g where "group1 gs = Inr g"
    using assms Some unfolding st by (rule one_group)
  then show ?thesis using Some st by (simp add: re_sub_def)
qed

lemma max_min_loop_total:
  "list_all (\<lambda>(pattern, replacement). adds 1 pattern) ps \<Longrightarrow>
   \<exists>r. max_min_loop ps question_lower question = Inr r"
proof (induction ps)
  case Nil
  show ?case by simp
next
  case (Cons p ps)
  obtain pattern replacement where p: "p = (pattern, replacement)" by (cases p)
  have "adds 1 pattern" using Cons.prems p by simp
  then have "\<exists>r. re_sub pattern replacement question_lower = Inr r" by (rule re_sub_total)
  moreover have "\<exists>r. max_min_loop ps question_lower question = Inr r"
    using Cons.prems by (intro Cons.IH) simp
  ultimately show ?case unfolding p by (simp split: option.split)
qed

lemma pattern_1_total: "\<exists>r. pattern_1 question_lower question = Inr r"
  unfolding pattern_1_def
  by (rule max_min_loop_total) (simp add: patterns_max_min_def adds_which_has [unfolded One_nat_def])

lemma sort_sentence_total:
  assumes "adds 2 m" and "re_match m s = Some (gs, r)"
  shows "\<exists>t. sort_sentence gs = Inr t"
proof -
  obtain a b where "unpack2 gs = Inr (a, b)" using assms by (rule two_groups)
  then show ?thesis by (simp add: sort_sentence_def)
qed

lemma pattern_2_total: "\<exists>r. pattern_2 question_lower question = Inr r"
proof (cases "re_match top_pattern question_lower")
  case None
  then show ?thesis by (simp add: pattern_2_def)
next
  case (Some st)
  obtain gs r where st: "st = (gs, r)" by (cases st)
  have "\<exists>t. sort_sentence gs = Inr t"
    using adds_top_pattern Some unfolding st by (rule sort_sentence_total)
  then show ?thesis using Some st by (simp add: pattern_2_def)
qed

lemma pattern_3_total: "\<exists>r. pattern_3 question_lower question = Inr r"
proof (cases "re_match sort_top_pattern question_lower")
  case None
  then show ?thesis by (simp add: pattern_3_def)
next
  case (Some st)
  obtain gs r where st: "st = (gs, r)" by (cases st)
  have "\<exists>t. sort_sentence gs = Inr t"
    using adds_sort_top_pattern Some unfolding st by (rule sort_sentence_total)
  then show ?thesis using Some st by (simp add: pattern_3_def)
qed

lemma pattern_4_total: "\<exists>r. pattern_4 question_lower question = Inr r"
  by (simp add: pattern_4_def index_def)

lemma pattern_5_total: "\<exists>r. pattern_5 question_lower question = Inr r"
proof (cases "re_match dept_pattern question_lower")
  case None
  then show ?thesis by (simp add: pattern_5_def)
next
  case (Some st)
  obtain gs r where st: "st = (gs, r)" by (cases st)
  obtain g where "group1 gs = Inr g"
    using adds_dept_pattern Some unfolding st by (rule one_group)
  then show ?thesis using Some st by (simp add: pattern_5_def)
qed

lemma pattern_6_total: "\<exists>r. pattern_6 question_lower question = Inr r"
  by (simp add: pattern_6_def)

lemma pattern_7_total: "\<exists>r. pattern_7 question_lower question = Inr r"
  by (simp add: pattern_7_def)

lemma pattern_8_total: "\<exists>r. pattern_8 question_lower question = Inr r"
  by (simp add: pattern_8_def)

lemma run_rules_total:
  "list_all (\<lambda>r. \<forall>q. \<exists>q'. r q = Inr q') rs \<Longrightarrow> \<exists>q'. run_rules rs question = Inr q'"
proof (induction rs arbitrary: question)
  case Nil
  show ?case by simp
next
  case (Cons r rs)
  from Cons.prems obtain q' where "r question = Inr q'" by auto
  moreover from Cons.prems have "list_all (\<lambda>r. \<forall>q. \<exists>q'. r q = Inr q') rs" by simp
  then have "\<exists>q''. run_rules rs q' = Inr q''" by (rule Cons.IH)
  ultimately show ?case by simp
qed

lemmas rules_total =
  pattern_0_total pattern_0c_total pattern_0d_total pattern_0e_total pattern_0f_total
  pattern_0g_total pattern_0h_total pattern_0i_total pattern_0j_total pattern_1_total
  pattern_2_total pattern_3_total pattern_4_total pattern_5_total pattern_6_total
  pattern_7_total pattern_8_total

text \<open>
  Claim C5. \<open>normalize_query\<close> is total: for every string, the empty one included, it
  returns a string. In the model the function is a composition of terminating functions, and
  each point where the code can raise (unpacking \<^verbatim>\<open>match.groups()\<close> into two names,
  \<^verbatim>\<open>match.group(1)\<close>, \<^verbatim>\<open>question.split()[1]\<close>) is a branch that returns an error; the
  theorem says that none of these branches is ever taken.
\<close>

theorem normalize_query_total: "\<exists>r. normalize_query q = Inr r"
  unfolding normalize_query_def Let_def
  by (rule run_rules_total) (simp add: rules_total)

section \<open>Questions that begin with \<^verbatim>\<open>how many ... in each ...\<close>\<close>

subsection \<open>Replacing a word between spaces\<close>


lemma replace_Nil: "replace (c # v) new [] = []"
  by simp









subsection \<open>Pattern 8 on the sentence built by Pattern 0\<close>



subsection \<open>What a match of \<open>how_many_grouped\<close> says about the text\<close>






subsection \<open>The rules that a text beginning with \<^verbatim>\<open>how many\<close> passes unchanged\<close>




















subsection \<open>The result for a question that matches Pattern 0\<close>




section \<open>Properties of \<open>query\<close>\<close>

subsection \<open>The product \<^verbatim>\<open>90 * 0.7\<close>\<close>

text \<open>
  The exact product \<open>90 * 6305039478318694\<close> has 59 bits; rounding it to 53 bits drops the
  low six bits \<open>28 < 32\<close>, and the product is \<open>63 - 2^-47\<close>, which Python prints as
  \<^verbatim>\<open>62.99999999999999\<close>.
\<close>

lemma round53_90: "round53 (90 * 6305039478318694) = 567453553048682432"
proof -
  have "bit_length 567453553048682460 = Suc 58" by (rule bit_length_eq) simp_all
  then show ?thesis by (simp add: round53_def Let_def)
qed

lemma times_0_7_90: "times_0_7 90 = 63 - 1 / 2 ^ 47"
  unfolding times_0_7_def round53_90 by simp

subsection \<open>Which text is sent to the agent\<close>

text \<open>
  Claim C4. The normalized text is to replace the question only when it differs from it and
  is strictly longer than 70 percent of it. The question below has 90 characters (a sentence
  of 63 characters followed by 27 spaces); its normal form is the sentence alone, 63
  characters, which is exactly 70 percent of 90 and not more. The code compares 63 with the
  binary64 product \<^verbatim>\<open>90 * 0.7\<close>, which is \<^verbatim>\<open>62.99999999999999\<close>, so the test succeeds and the
  normalized text is what the agent receives: an agent that returns its instruction returns
  the sentence without the spaces.
\<close>

theorem query_accepts_at_seventy_percent:
  "length (''show the first five rows of the table ordered by the salary col'' @
           replicate 27 (CHR '' '')) = 90 \<and>
   length ''show the first five rows of the table ordered by the salary col'' = 63 \<and>
   normalize_query (''show the first five rows of the table ordered by the salary col'' @
                    replicate 27 (CHR '' ''))
     = Inr ''show the first five rows of the table ordered by the salary col'' \<and>
   query \<lparr>self_api_key = ''key'', self_model_name = ''llama-3.3-70b-versatile'',
           self_agent = Some (\<lambda>instruction. Inr (PyStr instruction)),
           self_df = Some [''name'', ''salary'']\<rparr>
     (''show the first five rows of the table ordered by the salary col'' @
      replicate 27 (CHR '' ''))
     = Inr \<lparr>success = True,
            result = PyStr ''show the first five rows of the table ordered by the salary col'',
            error = None\<rparr>"
proof -
  let ?n = "''show the first five rows of the table ordered by the salary col''"
  let ?q = "?n @ replicate 27 (CHR '' '')"
  have len: "length ?q = 90" by simp
  have norm: "normalize_query ?q = Inr ?n" by code_simp
  have ne: "?n \<noteq> ?q" by simp
  have "times_0_7 (length ?q) < of_nat (length ?n)"
    unfolding len times_0_7_90 by simp
  then have acc: "accept_normalized ?q ?n = ?n"
    using ne unfolding accept_normalized_def by simp
  have enh: "enhanced_question ?n = ?n" by code_simp
  have ext: "extract_output (PyStr ?n) = PyStr ?n" by code_simp
  have "query \<lparr>self_api_key = ''key'', self_model_name = ''llama-3.3-70b-versatile'',
           self_agent = Some (\<lambda>instruction. Inr (PyStr instruction)),
           self_df = Some [''name'', ''salary'']\<rparr> ?q
     = Inr \<lparr>success = True, result = PyStr ?n, error = None\<rparr>"
    unfolding query_def
    by (simp only: norm acc enh ext data_analysis_agent.select_convs option.case sum.case)
  then show ?thesis using len norm by simp
qed

subsection \<open>Errors that are not recognized\<close>

text \<open>
  Claim C9. When the agent is present and its invocation raises an error whose message is
  recognized by none of the three tests of the handler (it does not contain
  \<^verbatim>\<open>Could not parse LLM output\<close>; its lower-cased text does not contain both \<^verbatim>\<open>column\<close>
  and \<^verbatim>\<open>not found\<close>; its lower-cased text does not contain \<^verbatim>\<open>parsing\<close>), \<open>query\<close>
  returns a failure whose error text is the message itself when it has at most 200
  characters, and otherwise its first 200 characters followed by
  \<^verbatim>\<open>... (Try a simpler query)\<close>. The second premise names the normal form of the question;
  \<open>normalize_query\<close> always has one.
\<close>

theorem query_unrecognized_error:
  assumes "self_agent self = Some invoke"
    and "normalize_query question = Inr normalized_question"
    and "invoke (enhanced_question (accept_normalized question normalized_question)) =
         Inl error_msg"
    and "\<not> contains ''Could not parse LLM output'' error_msg"
    and "\<not> (contains ''column'' (lower error_msg) \<and> contains ''not found'' (lower error_msg))"
    and "\<not> contains ''parsing'' (lower error_msg)"
  shows "query self question =
           Inr \<lparr>success = False, result = PyNone,
                error = Some (if length error_msg \<le> 200 then error_msg
                              else take 200 error_msg @ ''... (Try a simpler query)'')\<rparr>"
proof -
  have "query self question = handle_exception self error_msg"
    using assms(1-3) by (simp add: query_def)
  also have "\<dots> = Inr (failure (if length error_msg \<le> 200 then error_msg
                              else take 200 error_msg @ ''... (Try a simpler query)''))"
    using assms(4-6) by (auto simp add: handle_exception_def)
  finally show ?thesis by (simp add: failure_def)
qed

text \<open>
  Two runs of it: a short message is returned as it is, a message of 201 characters is cut
  after 200 and the hint is appended.
\<close>

theorem query_unrecognized_error_witness:
  "query \<lparr>self_api_key = ''key'', self_model_name = ''llama-3.3-70b-versatile'',
           self_agent = Some (\<lambda>instruction. Inl ''Connection timed out''), self_df = None\<rparr>
     ''show first 5 rows''
   = Inr \<lparr>success = False, result = PyNone, error = Some ''Connection timed out''\<rparr> \<and>
   query \<lparr>self_api_key = ''key'', self_model_name = ''llama-3.3-70b-versatile'',
           self_agent = Some (\<lambda>instruction. Inl (replicate 201 (CHR ''x''))), self_df = None\<rparr>
     ''show first 5 rows''
   = Inr \<lparr>success = False, result = PyNone,
          error = Some (replicate 200 (CHR ''x'') @ ''... (Try a simpler query)'')\<rparr>"
proof -
  have n: "normalize_query ''show first 5 rows'' = Inr ''show first 5 rows''" by code_simp
  have a1: "\<not> contains ''Could not parse LLM output'' ''Connection timed out''" by code_simp
  have a2: "\<not> (contains ''column'' (lower ''Connection timed out'') \<and>
                contains ''not found'' (lower ''Connection timed out''))" by code_simp
  have a3: "\<not> contains ''parsing'' (lower ''Connection timed out'')" by code_simp
  have b1: "\<not> contains ''Could not parse LLM output'' (replicate 201 (CHR ''x''))" by code_simp
  have b2: "\<not> (contains ''column'' (lower (replicate 201 (CHR ''x''))) \<and>
                contains ''not found'' (lower (replicate 201 (CHR ''x''))))" by code_simp
  have b3: "\<not> contains ''parsing'' (lower (replicate 201 (CHR ''x'')))" by code_simp
  have t: "take 200 (replicate 201 (CHR ''x'')) = replicate 200 (CHR ''x'')" by simp
  show ?thesis
    using query_unrecognized_error [OF _ n _ a1 a2 a3, of _ "\<lambda>instruction. Inl ''Connection timed out''"]
          query_unrecognized_error [OF _ n _ b1 b2 b3, of _ "\<lambda>instruction. Inl (replicate 201 (CHR ''x''))"]
    by (simp add: t)
qed


end
